theory Spec2Isabelle
  imports Main "HOL-Library.List_Lexorder" "HOL-Library.Product_Lexorder" "HOL-Library.Multiset"
begin

section \<open>Python strings\<close>

text \<open>
  A Python 3 \<open>str\<close> is a sequence of Unicode code points, and \<open><\<close> on \<open>str\<close> compares
  code points lexicographically (a proper prefix is smaller). A code point is a natural
  number; the order on lists is the lexicographic one of \<open>List_Lexorder\<close>, and tuples are
  compared lexicographically as Python compares them (\<open>Product_Lexorder\<close>).
  The script runs under Python 3 (its first line asks for \<open>python3\<close>), so
  \<open>sys.version_info.major == 2\<close> is false and the \<open>else\<close> branches are the ones modelled.
\<close>

type_synonym codepoint = nat
type_synonym pystr = "codepoint list"

definition str :: "string \<Rightarrow> pystr" where
  "str s = map of_char s"

text \<open>
  On ASCII, \<open>str.casefold\<close>, \<open>str.lower\<close> and \<open>str.upper\<close> only move the letters
  \<open>A..Z\<close> and \<open>a..z\<close>. For the other code points they read the Unicode character
  database, which is a table of the interpreter and not of this program: it is a parameter.
  A mapping may give several code points (\<open>U+00DF\<close> folds to \<open>ss\<close>).
\<close>

definition ascii_lower :: "codepoint \<Rightarrow> codepoint" where
  "ascii_lower c = (if 65 \<le> c \<and> c \<le> 90 then c + 32 else c)"

definition ascii_upper :: "codepoint \<Rightarrow> codepoint" where
  "ascii_upper c = (if 97 \<le> c \<and> c \<le> 122 then c - 32 else c)"

record unicode_data =
  fold_full :: "codepoint \<Rightarrow> pystr"
  lower_full :: "codepoint \<Rightarrow> pystr"
  upper_full :: "codepoint \<Rightarrow> pystr"

text \<open>\<open>s.casefold()\<close>: full case folding, one code point after the other.\<close>

definition casefold :: "unicode_data \<Rightarrow> pystr \<Rightarrow> pystr" where
  "casefold U s = concat (map (\<lambda>c. if c < 128 then [ascii_lower c] else fold_full U c) s)"

text \<open>
  \<open>ch.lower()\<close> and \<open>ch.upper()\<close> for the one-character string \<open>ch = row[0][0]\<close>, the only
  strings the script applies them to.
\<close>

definition lower1 :: "unicode_data \<Rightarrow> codepoint \<Rightarrow> pystr" where
  "lower1 U c = (if c < 128 then [ascii_lower c] else lower_full U c)"

definition upper1 :: "unicode_data \<Rightarrow> codepoint \<Rightarrow> pystr" where
  "upper1 U c = (if c < 128 then [ascii_upper c] else upper_full U c)"

text \<open>
  A table that leaves every non-ASCII code point as it is, for closed examples on ASCII
  rows, where no table entry is read.
\<close>

definition plain_table :: unicode_data where
  "plain_table = \<lparr>fold_full = (\<lambda>c. [c]), lower_full = (\<lambda>c. [c]), upper_full = (\<lambda>c. [c])\<rparr>"

section \<open>Rows and the sort\<close>

text \<open>
  \<open>csv.reader\<close> yields each line as a list of fields, of any length (an empty line gives
  \<open>[]\<close>). The input of the model is that sequence of rows.
\<close>

type_synonym row = "pystr list"
type_synonym sortkey = "pystr \<times> pystr \<times> pystr \<times> pystr"

datatype error = IndexError | SystemExit nat

text \<open>
  The key function
  \<^verbatim>\<open>lambda row: (row[0].casefold(), row[1], row[2], row[3].casefold())\<close>
  raises \<open>IndexError\<close> on a row of fewer than four fields and ignores the fields after the
  fourth.
\<close>

fun row_key :: "unicode_data \<Rightarrow> row \<Rightarrow> error + sortkey" where
  "row_key U (topic # bk # pg # comment # _) = Inr (casefold U topic, bk, pg, casefold U comment)"
| "row_key U _ = Inl IndexError"

text \<open>
  \<open>sorted(csvin, key=...)\<close> first calls the key function on every row, in input order
  (the first exception ends the call), then sorts the rows by their keys with a stable
  sort, ascending. \<open>sort_key\<close> is the stable insertion sort of the list library.
\<close>

fun keys :: "unicode_data \<Rightarrow> row list \<Rightarrow> error + (sortkey \<times> row) list" where
  "keys U [] = Inr []"
| "keys U (r # rs) =
     (case row_key U r of
        Inl e \<Rightarrow> Inl e
      | Inr k \<Rightarrow> (case keys U rs of Inl e \<Rightarrow> Inl e | Inr ks \<Rightarrow> Inr ((k, r) # ks)))"

definition csvsorted :: "unicode_data \<Rightarrow> row list \<Rightarrow> error + row list" where
  "csvsorted U csvin =
     (case keys U csvin of Inl e \<Rightarrow> Inl e | Inr ks \<Rightarrow> Inr (map snd (sort_key fst ks)))"

section \<open>The document\<close>

text \<open>
  The \<open>python-docx\<close> objects the script builds: a run carries the text given to
  \<open>add_run\<close>, its character formatting (\<open>None\<close> is "inherited") and the XML elements
  appended to \<open>run._r\<close>; the body of the document is the sequence of headings, paragraphs
  and section breaks in the order they were added.
\<close>

datatype xml = OxmlElement pystr "(pystr \<times> pystr) list" pystr

record run =
  r_text :: pystr
  r_bold :: "bool option"
  r_italic :: "bool option"
  r_rgb :: "(nat \<times> nat \<times> nat) option"
  r_xml :: "xml list"

datatype wd_align = CENTER
datatype wd_section = ODD_PAGE

record para =
  alignment :: "wd_align option"
  runs :: "run list"

datatype block = Heading pystr nat | Paragraph para | Section wd_section

record document =
  footer :: para
  body :: "block list"

definition add_run :: "pystr \<Rightarrow> run" where
  "add_run t = \<lparr>r_text = t, r_bold = None, r_italic = None, r_rgb = None, r_xml = []\<rparr>"

definition empty_paragraph :: para where
  "empty_paragraph = \<lparr>alignment = None, runs = []\<rparr>"

text \<open>\<open>Document()\<close>: an empty body; the footer of its first section holds one empty paragraph.\<close>

definition Document :: document where
  "Document = \<lparr>footer = empty_paragraph, body = []\<rparr>"

definition add_heading :: "pystr \<Rightarrow> nat \<Rightarrow> document \<Rightarrow> document" where
  "add_heading t level d = d\<lparr>body := body d @ [Heading t level]\<rparr>"

definition add_section :: "wd_section \<Rightarrow> document \<Rightarrow> document" where
  "add_section s d = d\<lparr>body := body d @ [Section s]\<rparr>"

definition add_paragraph :: "run list \<Rightarrow> document \<Rightarrow> document" where
  "add_paragraph rs d = d\<lparr>body := body d @ [Paragraph \<lparr>alignment = None, runs = rs\<rparr>]\<rparr>"

subsection \<open>\<open>add_page_numbers\<close>\<close>

definition w_t :: "pystr \<Rightarrow> xml" where
  "w_t t = OxmlElement (str ''w:t'') [(str ''xml:space'', str ''preserve'')] t"

definition fldChar :: "pystr \<Rightarrow> xml" where
  "fldChar ty = OxmlElement (str ''w:fldChar'') [(str ''w:fldCharType'', ty)] []"

definition instrText :: "pystr \<Rightarrow> xml" where
  "instrText t = OxmlElement (str ''w:instrText'') [(str ''xml:space'', str ''preserve'')] t"

definition xml_run :: "xml list \<Rightarrow> run" where
  "xml_run es = (add_run [])\<lparr>r_xml := es\<rparr>"

definition add_page_numbers :: "para \<Rightarrow> para" where
  "add_page_numbers p =
     p\<lparr>alignment := Some CENTER,
       runs := runs p @
         [xml_run [w_t (str ''Page '')],
          xml_run [fldChar (str ''begin''), instrText (str ''PAGE''), fldChar (str ''end'')],
          xml_run [w_t (str '' of '')],
          xml_run [fldChar (str ''begin''), instrText (str ''NUMPAGES''), fldChar (str ''end'')]]\<rparr>"

section \<open>The assembly loop\<close>

text \<open>
  The state of the loop of \<open>main\<close>: the letter cursor \<open>currltr\<close>, the document under
  construction and the lines printed so far.
\<close>

record assembler =
  currltr :: pystr
  document :: document
  stdout :: "pystr list"

text \<open>
  Lines 192 to 197: when the lower-cased first character of the topic is greater than the
  cursor, the cursor moves to it, a line is printed, and a section starting on an odd page
  and a heading (the character upper-cased, then lower-cased) are added.
\<close>

definition new_letter :: "unicode_data \<Rightarrow> codepoint \<Rightarrow> assembler \<Rightarrow> assembler" where
  "new_letter U c st =
     (if currltr st < lower1 U c
      then st\<lparr>stdout := stdout st @ [str ''Processing:  '' @ upper1 U c @ lower1 U c],
             currltr := lower1 U c,
             document := add_heading (upper1 U c @ lower1 U c) 0
                           (add_section ODD_PAGE (document st))\<rparr>
      else st)"

text \<open>The three runs of an entry, lines 199 to 206.\<close>

definition topic_run :: "pystr \<Rightarrow> run" where
  "topic_run topic = (add_run topic)\<lparr>r_bold := Some True, r_rgb := Some (22, 103, 255)\<rparr>"

definition location_run :: "pystr \<Rightarrow> pystr \<Rightarrow> run" where
  "location_run bk pg =
     (add_run (str '' [b'' @ bk @ str ''/p'' @ pg @ str ''] ''))\<lparr>r_italic := Some True\<rparr>"

text \<open>
  One iteration of \<^verbatim>\<open>for row in csvsorted\<close>. The first thing it evaluates is
  \<open>row[0][0]\<close>, which raises \<open>IndexError\<close> on a row without fields and on an empty topic,
  before anything is changed. \<open>row[1]\<close>, \<open>row[2]\<close> and \<open>row[3]\<close> are read later, after the
  heading, the paragraph and its first run have been added.
\<close>

definition step :: "unicode_data \<Rightarrow> row \<Rightarrow> assembler \<Rightarrow> error option \<times> assembler" where
  "step U row st =
     (case row of
        [] \<Rightarrow> (Some IndexError, st)
      | topic # rest \<Rightarrow>
         (case topic of
            [] \<Rightarrow> (Some IndexError, st)
          | c # _ \<Rightarrow>
             let st1 = new_letter U c st
             in (case rest of
                   bk # pg # rest' \<Rightarrow>
                     (case rest' of
                        comment # _ \<Rightarrow>
                          (None, st1\<lparr>document :=
                             add_paragraph [topic_run topic, location_run bk pg, add_run comment]
                               (document st1)\<rparr>)
                      | [] \<Rightarrow>
                          (Some IndexError, st1\<lparr>document :=
                             add_paragraph [topic_run topic, location_run bk pg] (document st1)\<rparr>))
                 | _ \<Rightarrow>
                     (Some IndexError, st1\<lparr>document :=
                        add_paragraph [topic_run topic] (document st1)\<rparr>))))"

fun loop :: "unicode_data \<Rightarrow> row list \<Rightarrow> assembler \<Rightarrow> error option \<times> assembler" where
  "loop U [] st = (None, st)"
| "loop U (row # rows) st =
     (case step U row st of
        (Some e, st') \<Rightarrow> (Some e, st')
      | (None, st') \<Rightarrow> loop U rows st')"

section \<open>\<open>main\<close>\<close>

text \<open>
  The file system maps a path to the file stored there. \<open>os.path.isfile(docfile)\<close> is
  \<open>fs docfile \<noteq> None\<close>, \<open>document.save(docfile)\<close> stores the document, and it is the only
  write of the program. \<open>parser.error\<close> prints its message to the standard error stream
  and leaves with exit status 2. The name \<open>docfile\<close> that \<open>main\<close> derives from the
  command line, and the rows \<open>csv.reader\<close> reads, are the arguments of the model.
  Lines 150 to 184 of the script set the margins, the two columns and the two styles; they
  touch neither the body nor the footer text and are left out.
\<close>

datatype stored = Docx document | OtherFile

type_synonym filesystem = "pystr \<Rightarrow> stored option"

record outcome =
  result :: "error + unit"
  files :: filesystem
  printed :: "pystr list"

definition initial :: assembler where
  "initial =
     \<lparr>currltr = str ''`'',
      document = add_heading (str ''#'') 0 (Document\<lparr>footer := add_page_numbers (footer Document)\<rparr>),
      stdout = [str ''Processing:  #'']\<rparr>"

definition main :: "unicode_data \<Rightarrow> pystr \<Rightarrow> row list \<Rightarrow> filesystem \<Rightarrow> outcome" where
  "main U docfile csvin fs =
     (case csvsorted U csvin of
        Inl e \<Rightarrow> \<lparr>result = Inl e, files = fs, printed = []\<rparr>
      | Inr rows \<Rightarrow>
          if fs docfile \<noteq> None
          then \<lparr>result = Inl (SystemExit 2), files = fs, printed = []\<rparr>
          else
            (case loop U rows initial of
               (Some e, st) \<Rightarrow> \<lparr>result = Inl e, files = fs, printed = stdout st\<rparr>
             | (None, st) \<Rightarrow>
                 \<lparr>result = Inr (),
                  files = fs(docfile \<mapsto> Docx (document st)),
                  printed = stdout st @ [str ''Document created:  '' @ docfile]\<rparr>))"


section \<open>Notions used in the statements\<close>

text \<open>
  The SortKey of the specification, \<open>(casefold(topic), bookNumber, pageNumber,
  casefold(comment))\<close>, as a total function; it is what \<open>row_key\<close> returns on a row of
  at least four fields.
\<close>

definition SortKey :: "unicode_data \<Rightarrow> row \<Rightarrow> sortkey" where
  "SortKey U r = (casefold U (r ! 0), r ! 1, r ! 2, casefold U (r ! 3))"

text \<open>
  \<open>row[0][0].lower()\<close>, the lower-cased leading character of a row (the empty string where
  there is none and the loop raises).
\<close>

definition lead :: "unicode_data \<Rightarrow> row \<Rightarrow> pystr" where
  "lead U r = (case r of (c # _) # _ \<Rightarrow> lower1 U c | _ \<Rightarrow> [])"

text \<open>The paragraph the loop adds for a row of four fields.\<close>

definition entry :: "row \<Rightarrow> block" where
  "entry r =
     Paragraph \<lparr>alignment = None,
                runs = [topic_run (r ! 0), location_run (r ! 1) (r ! 2), add_run (r ! 3)]\<rparr>"

text \<open>The state the loop of \<open>main\<close> has reached when it comes to row \<open>i\<close>, and the test of line 192 there.\<close>

definition state_before :: "unicode_data \<Rightarrow> row list \<Rightarrow> nat \<Rightarrow> assembler" where
  "state_before U rows i = snd (loop U (take i rows) initial)"

definition opens :: "unicode_data \<Rightarrow> row list \<Rightarrow> nat \<Rightarrow> bool" where
  "opens U rows i = (currltr (state_before U rows i) < lead U (rows ! i))"

text \<open>The headings of a body, the number of its section breaks, and the text of a block.\<close>

fun headings :: "block list \<Rightarrow> pystr list" where
  "headings [] = []"
| "headings (Heading t _ # bs) = t # headings bs"
| "headings (_ # bs) = headings bs"

fun sections :: "block list \<Rightarrow> nat" where
  "sections [] = 0"
| "sections (Section _ # bs) = Suc (sections bs)"
| "sections (_ # bs) = sections bs"

fun block_text :: "block \<Rightarrow> pystr" where
  "block_text (Heading t _) = t"
| "block_text (Paragraph p) = concat (map r_text (runs p))"
| "block_text (Section _) = []"

text \<open>
  What a run of the footer is: fixed text (one \<open>w:t\<close> element), or a field computed by the
  viewer (\<open>w:fldChar begin\<close>, the instruction in \<open>w:instrText\<close>, \<open>w:fldChar end\<close>).
\<close>

datatype footer_item = Fixed_text pystr | Computed_field pystr | Other_run

fun classify_xml :: "xml list \<Rightarrow> footer_item" where
  "classify_xml [OxmlElement tag attrs t] = (if tag = str ''w:t'' then Fixed_text t else Other_run)"
| "classify_xml [b, OxmlElement tag attrs t, e] =
     (if b = fldChar (str ''begin'') \<and> tag = str ''w:instrText'' \<and> e = fldChar (str ''end'')
      then Computed_field t else Other_run)"
| "classify_xml _ = Other_run"

definition classify :: "run \<Rightarrow> footer_item" where
  "classify r = (if r_text r = [] then classify_xml (r_xml r) else Other_run)"

text \<open>
  The footer as the specification words it: \<open>Page\<close>, the current page, \<open>of\<close>, the number
  of pages, then trailing fixed text.
\<close>

fun footer_with_trailing_text :: "footer_item list \<Rightarrow> bool" where
  "footer_with_trailing_text [a, b, c, d, Fixed_text t] =
     (a = Fixed_text (str ''Page '') \<and> b = Computed_field (str ''PAGE'')
      \<and> c = Fixed_text (str '' of '') \<and> d = Computed_field (str ''NUMPAGES''))"
| "footer_with_trailing_text _ = False"

text \<open>
  A property of the Unicode tables: a non-ASCII code point lower-cases to a string above
  the backtick, and its case folding starts above the backtick.
\<close>

definition above_backtick :: "unicode_data \<Rightarrow> bool" where
  "above_backtick U =
     (\<forall>c. 128 \<le> c \<longrightarrow> str ''`'' < lower_full U c \<and> (\<exists>d ds. fold_full U c = d # ds \<and> 96 < d))"

text \<open>Rows and file systems of the examples.\<close>

definition apple10 :: row where
  "apple10 = [str ''apple'', str ''2'', str ''10'', str ''x'']"

definition Apple9 :: row where
  "Apple9 = [str ''Apple'', str ''2'', str ''9'', str ''y'']"

definition zebra :: row where
  "zebra = [str ''Zebra'', str ''1'', str ''5'', str ''desc1'']"

definition apple :: row where
  "apple = [str ''apple'', str ''3'', str ''2'', str ''desc2'']"

definition Apple1 :: row where
  "Apple1 = [str ''Apple'', str ''1'', str ''1'', str ''X'']"

definition apple1 :: row where
  "apple1 = [str ''apple'', str ''1'', str ''1'', str ''x'']"

definition five_fields :: row where
  "five_fields = [str ''apple'', str ''3'', str ''2'', str ''desc2'', str ''extra'']"

definition one_field :: row where
  "one_field = [str ''apple'']"


definition digit1 :: row where
  "digit1 = [str ''1st'', str ''1'', str ''1'', str ''x'']"

definition digit2 :: row where
  "digit2 = [str ''2nd'', str ''1'', str ''2'', str ''y'']"


definition index_docx :: pystr where
  "index_docx = str ''index.docx''"

definition empty_dir :: filesystem where
  "empty_dir = (\<lambda>p. None)"

definition occupied :: filesystem where
  "occupied = empty_dir(index_docx \<mapsto> OtherFile)"

section \<open>The sort\<close>


lemma row_key_SortKey: "4 \<le> length r \<Longrightarrow> row_key U r = Inr (SortKey U r)"
  by (cases "(U, r)" rule: row_key.cases) (simp_all add: SortKey_def)

lemma row_key_short: "length r < 4 \<Longrightarrow> row_key U r = Inl IndexError"
  by (cases "(U, r)" rule: row_key.cases) simp_all

lemma keys_short: "\<exists>r\<in>set rows. length r < 4 \<Longrightarrow> keys U rows = Inl IndexError"
proof (induction rows)
  case Nil
  then show ?case by simp
next
  case (Cons r rows)
  show ?case
  proof (cases "length r < 4")
    case True
    then show ?thesis by (simp add: row_key_short)
  next
    case False
    with Cons.prems have "\<exists>r\<in>set rows. length r < 4" by auto
    then have "keys U rows = Inl IndexError" by (rule Cons.IH)
    moreover from False have "row_key U r = Inr (SortKey U r)" by (simp add: row_key_SortKey)
    ultimately show ?thesis by simp
  qed
qed

lemma keys_wide:
  "\<forall>r\<in>set rows. 4 \<le> length r \<Longrightarrow> keys U rows = Inr (map (\<lambda>r. (SortKey U r, r)) rows)"
  by (induction rows) (simp_all add: row_key_SortKey)

text \<open>Sorting the decorated rows by their first component is sorting the rows by the key.\<close>

lemma insort_key_decorated:
  "insort_key fst (f x, x) (map (\<lambda>r. (f r, r)) xs) = map (\<lambda>r. (f r, r)) (insort_key f x xs)"
  by (induction xs) simp_all

lemma sort_key_decorated:
  "sort_key fst (map (\<lambda>r. (f r, r)) xs) = map (\<lambda>r. (f r, r)) (sort_key f xs)"
  by (induction xs) (simp_all add: insort_key_decorated)

lemma csvsorted_wide:
  "\<forall>r\<in>set rows. 4 \<le> length r \<Longrightarrow> csvsorted U rows = Inr (sort_key (SortKey U) rows)"
  by (simp add: csvsorted_def keys_wide sort_key_decorated comp_def)

lemma csvsorted_short:
  "\<exists>r\<in>set rows. length r < 4 \<Longrightarrow> csvsorted U rows = Inl IndexError"
  by (simp add: csvsorted_def keys_short)

lemma csvsorted_Inr:
  assumes "csvsorted U rows = Inr srt"
  shows "\<forall>r\<in>set rows. 4 \<le> length r" and "srt = sort_key (SortKey U) rows"
proof -
  show w: "\<forall>r\<in>set rows. 4 \<le> length r"
  proof (rule ccontr)
    assume "\<not> (\<forall>r\<in>set rows. 4 \<le> length r)"
    then have "\<exists>r\<in>set rows. length r < 4" by (simp add: not_le)
    then have "csvsorted U rows = Inl IndexError" by (rule csvsorted_short)
    with assms show False by simp
  qed
  with assms show "srt = sort_key (SortKey U) rows" by (simp add: csvsorted_wide)
qed

lemmas eval_sort = csvsorted_def casefold_def ascii_lower_def str_def

text \<open>
  C1. On rows of four fields the sorter returns a rearrangement of its input that is
  ascending in the SortKey, the tuple the key function computes: topic and comment
  case-folded, book and page number as they are, compared as text. So of the rows
  \<open>("Apple","2","9","y")\<close> and \<open>("apple","2","10","x")\<close> the one with page \<open>"10"\<close> comes first.
\<close>

theorem sorter_orders_by_SortKey:
  "((\<forall>r\<in>set rows. length r = 4) \<longrightarrow>
      (\<exists>srt. csvsorted U rows = Inr srt \<and> mset srt = mset rows
         \<and> (\<forall>r\<in>set srt. row_key U r = Inr (SortKey U r))
         \<and> sorted (map (SortKey U) srt)))
   \<and> csvsorted U [Apple9, apple10] = Inr [apple10, Apple9]"
proof
  show "(\<forall>r\<in>set rows. length r = 4) \<longrightarrow>
      (\<exists>srt. csvsorted U rows = Inr srt \<and> mset srt = mset rows
         \<and> (\<forall>r\<in>set srt. row_key U r = Inr (SortKey U r))
         \<and> sorted (map (SortKey U) srt))"
  proof
    assume four: "\<forall>r\<in>set rows. length r = 4"
    then have wide: "\<forall>r\<in>set rows. 4 \<le> length r" by simp
    have "csvsorted U rows = Inr (sort_key (SortKey U) rows)"
      using wide by (rule csvsorted_wide)
    moreover have "mset (sort_key (SortKey U) rows) = mset rows" by simp
    moreover have "\<forall>r\<in>set (sort_key (SortKey U) rows). row_key U r = Inr (SortKey U r)"
      using wide by (simp add: row_key_SortKey)
    moreover have "sorted (map (SortKey U) (sort_key (SortKey U) rows))" by simp
    ultimately show "\<exists>srt. csvsorted U rows = Inr srt \<and> mset srt = mset rows
         \<and> (\<forall>r\<in>set srt. row_key U r = Inr (SortKey U r))
         \<and> sorted (map (SortKey U) srt)" by blast
  qed
next
  show "csvsorted U [Apple9, apple10] = Inr [apple10, Apple9]"
    by (simp add: eval_sort Apple9_def apple10_def)
qed

theorem sorter_orders_by_SortKey_witness:
  "length zebra = 4 \<and> length Apple9 = 4 \<and> length apple10 = 4 \<and>
   (\<exists>srt. csvsorted plain_table [zebra, Apple9, apple10] = Inr srt
         \<and> mset srt = mset [zebra, Apple9, apple10]
         \<and> (\<forall>r\<in>set srt. row_key plain_table r = Inr (SortKey plain_table r))
         \<and> sorted (map (SortKey plain_table) srt))"
proof -
  have four: "\<forall>r\<in>set [zebra, Apple9, apple10]. length r = 4"
    by (simp add: Apple9_def apple10_def zebra_def)
  have "length zebra = 4 \<and> length Apple9 = 4 \<and> length apple10 = 4"
    by (simp add: Apple9_def apple10_def zebra_def)
  with four sorter_orders_by_SortKey [of "[zebra, Apple9, apple10]" plain_table] show ?thesis
    by blast
qed

text \<open>
  C5. The sort is stable: for every key, the rows with that key come out of the sorter in
  the order in which they went in.
\<close>

theorem sorter_stable:
  "csvsorted U rows = Inr srt \<Longrightarrow>
   filter (\<lambda>r. row_key U r = Inr k) srt = filter (\<lambda>r. row_key U r = Inr k) rows"
proof -
  assume a: "csvsorted U rows = Inr srt"
  then have wide: "\<forall>r\<in>set rows. 4 \<le> length r" and srt: "srt = sort_key (SortKey U) rows"
    by (rule csvsorted_Inr)+
  have "filter (\<lambda>r. row_key U r = Inr k) srt = filter (\<lambda>r. SortKey U r = k) srt"
    by (rule filter_cong) (use wide srt in \<open>simp_all add: row_key_SortKey\<close>)
  also have "\<dots> = filter (\<lambda>r. SortKey U r = k) rows"
    unfolding srt by (rule sort_key_stable)
  also have "\<dots> = filter (\<lambda>r. row_key U r = Inr k) rows"
    by (rule filter_cong) (use wide in \<open>simp_all add: row_key_SortKey\<close>)
  finally show ?thesis .
qed

theorem sorter_stable_witness:
  "csvsorted plain_table [zebra, Apple1, apple1] = Inr [Apple1, apple1, zebra]
   \<and> filter (\<lambda>r. row_key plain_table r = Inr (str ''apple'', str ''1'', str ''1'', str ''x''))
        [Apple1, apple1, zebra] = [Apple1, apple1]
   \<and> filter (\<lambda>r. row_key plain_table r = Inr (str ''apple'', str ''1'', str ''1'', str ''x''))
        [zebra, Apple1, apple1] = [Apple1, apple1]"
proof -
  have s: "csvsorted plain_table [zebra, Apple1, apple1] = Inr [Apple1, apple1, zebra]"
    by (simp add: eval_sort Apple1_def apple1_def zebra_def)
  have f: "filter (\<lambda>r. row_key plain_table r = Inr (str ''apple'', str ''1'', str ''1'', str ''x''))
        [zebra, Apple1, apple1] = [Apple1, apple1]"
    by (simp add: eval_sort Apple1_def apple1_def zebra_def)
  from sorter_stable [OF s, of "(str ''apple'', str ''1'', str ''1'', str ''x'')"] s f
  show ?thesis by simp
qed

text \<open>
  C8. Sorting is idempotent: the sorter returns its own output unchanged, and it returns
  unchanged every sequence of rows that is already ascending in the SortKey.
\<close>

theorem sorter_idempotent:
  "(csvsorted U rows = Inr srt \<longrightarrow> csvsorted U srt = Inr srt)
   \<and> ((\<forall>r\<in>set rows. 4 \<le> length r) \<and> sorted (map (SortKey U) rows)
        \<longrightarrow> csvsorted U rows = Inr rows)"
proof (intro conjI impI)
  assume a: "csvsorted U rows = Inr srt"
  then have wide: "\<forall>r\<in>set rows. 4 \<le> length r" and srt: "srt = sort_key (SortKey U) rows"
    by (rule csvsorted_Inr)+
  from wide srt have "\<forall>r\<in>set srt. 4 \<le> length r" by simp
  then have "csvsorted U srt = Inr (sort_key (SortKey U) srt)" by (rule csvsorted_wide)
  also have "sort_key (SortKey U) srt = srt"
    unfolding srt by (rule sort_key_id_if_sorted) simp
  finally show "csvsorted U srt = Inr srt" .
next
  assume b: "(\<forall>r\<in>set rows. 4 \<le> length r) \<and> sorted (map (SortKey U) rows)"
  then have "csvsorted U rows = Inr (sort_key (SortKey U) rows)" by (simp add: csvsorted_wide)
  also from b have "sort_key (SortKey U) rows = rows" by (simp add: sort_key_id_if_sorted)
  finally show "csvsorted U rows = Inr rows" .
qed

theorem sorter_idempotent_witness:
  "csvsorted plain_table [zebra, apple] = Inr [apple, zebra]
   \<and> csvsorted plain_table [apple, zebra] = Inr [apple, zebra]
   \<and> 4 \<le> length apple \<and> 4 \<le> length zebra
   \<and> sorted (map (SortKey plain_table) [apple, zebra])"
proof -
  have s: "csvsorted plain_table [zebra, apple] = Inr [apple, zebra]"
    by (simp add: eval_sort apple_def zebra_def)
  have w: "\<forall>r\<in>set [apple, zebra]. 4 \<le> length r"
    by (simp add: apple_def zebra_def)
  have o: "sorted (map (SortKey plain_table) [apple, zebra])"
    by (simp add: SortKey_def casefold_def ascii_lower_def str_def apple_def zebra_def)
  from sorter_idempotent [of plain_table "[zebra, apple]" "[apple, zebra]"] s
  have "csvsorted plain_table [apple, zebra] = Inr [apple, zebra]" by simp
  moreover from sorter_idempotent [of plain_table "[apple, zebra]" "[apple, zebra]"] w o
  have "csvsorted plain_table [apple, zebra] = Inr [apple, zebra]" by simp
  ultimately show ?thesis using s w o by simp
qed



section \<open>The loop, one row at a time\<close>

lemma currltr_new_letter:
  "currltr (new_letter U c st) = (if currltr st < lower1 U c then lower1 U c else currltr st)"
  by (simp add: new_letter_def)

lemma body_new_letter:
  "body (document (new_letter U c st)) =
     body (document st) @
       (if currltr st < lower1 U c
        then [Section ODD_PAGE, Heading (upper1 U c @ lower1 U c) 0] else [])"
  by (simp add: new_letter_def add_heading_def add_section_def)

lemma footer_new_letter: "footer (document (new_letter U c st)) = footer (document st)"
  by (simp add: new_letter_def add_heading_def add_section_def)


lemma step_ok:
  assumes "4 \<le> length r" and "r ! 0 \<noteq> []"
  shows "step U r st =
           (None, (new_letter U (hd (r ! 0)) st)
                    \<lparr>document := (document (new_letter U (hd (r ! 0)) st))
                       \<lparr>body := body (document (new_letter U (hd (r ! 0)) st)) @ [entry r]\<rparr>\<rparr>)"
proof -
  from assms(1) obtain topic bk pg comment rest where r: "r = topic # bk # pg # comment # rest"
    by (cases "(U, r)" rule: row_key.cases) auto
  with assms(2) obtain c cs where t: "topic = c # cs" by (cases topic) auto
  show ?thesis
    by (simp add: r t step_def entry_def add_paragraph_def Let_def)
qed

lemma footer_step: "footer (document (snd (step U r st))) = footer (document st)"
  by (simp add: step_def add_paragraph_def footer_new_letter Let_def split: list.splits)

lemma footer_loop: "footer (document (snd (loop U rs st))) = footer (document st)"
proof (induction rs arbitrary: st)
  case Nil
  show ?case by simp
next
  case (Cons r rs)
  show ?case
  proof (cases "step U r st")
    case (Pair e st')
    with footer_step [of U r st] have f: "footer (document st') = footer (document st)" by simp
    show ?thesis
    proof (cases e)
      case None
      with Pair Cons.IH [of st'] f show ?thesis by simp
    next
      case (Some a)
      with Pair f show ?thesis by simp
    qed
  qed
qed


lemma loop_total:
  "\<forall>r\<in>set rs. 4 \<le> length r \<and> r ! 0 \<noteq> [] \<Longrightarrow> fst (loop U rs st) = None"
  by (induction rs arbitrary: st) (simp_all add: step_ok)


section \<open>The whole run\<close>

lemmas eval_main =
  main_def initial_def step_def new_letter_def lower1_def upper1_def ascii_upper_def
  add_heading_def add_section_def add_paragraph_def Document_def Let_def

text \<open>
  C3, as the code has it. A row of fewer than four fields makes the key function raise
  \<open>IndexError\<close> (an exception that carries no row number) while the rows are sorted: the
  run ends there, nothing is printed, and no document is written.
\<close>

theorem short_row_raises:
  "\<exists>r\<in>set rows. length r < 4 \<Longrightarrow>
   main U docfile rows fs = \<lparr>result = Inl IndexError, files = fs, printed = []\<rparr>"
  by (simp add: main_def csvsorted_short)

theorem short_row_raises_witness:
  "length one_field < 4
   \<and> main plain_table index_docx [apple, one_field] empty_dir
       = \<lparr>result = Inl IndexError, files = empty_dir, printed = []\<rparr>"
proof -
  have l: "length one_field < 4" by (simp add: one_field_def)
  then have "\<exists>r\<in>set [apple, one_field]. length r < 4" by simp
  from short_row_raises [OF this] l show ?thesis by simp
qed

text \<open>
  C3 as stated fails on a row of more than four fields: a row of five fields is accepted,
  the run succeeds, and the document written is the one the first four fields give.
\<close>

theorem five_fields_accepted:
  "length five_fields = 5
   \<and> result (main plain_table index_docx [five_fields] empty_dir) = Inr ()
   \<and> files (main plain_table index_docx [five_fields] empty_dir) index_docx
       = files (main plain_table index_docx [apple] empty_dir) index_docx
   \<and> files (main plain_table index_docx [apple] empty_dir) index_docx
       = Some (Docx \<lparr>footer = add_page_numbers empty_paragraph,
                      body = [Heading (str ''#'') 0, Section ODD_PAGE, Heading (str ''Aa'') 0,
                              entry apple]\<rparr>)"
  by (simp add: eval_main eval_sort five_fields_def apple_def empty_dir_def index_docx_def entry_def)




text \<open>
  C6. The rows \<open>("Zebra","1","5","desc1")\<close>, \<open>("apple","3","2","desc2")\<close> are sorted to
  apple, Zebra. The document saved has, after the initial heading \<open>#\<close>, two sections,
  headed \<open>Aa\<close> and \<open>Zz\<close>, each with one entry; the entries read
  \<open>apple [b3/p2] desc2\<close> and \<open>Zebra [b1/p5] desc1\<close>; the topic run is bold and coloured,
  the location run italic, the comment run unformatted.
\<close>

theorem zebra_apple:
  "fs docfile = None \<Longrightarrow>
   csvsorted U [zebra, apple] = Inr [apple, zebra]
   \<and> result (main U docfile [zebra, apple] fs) = Inr ()
   \<and> files (main U docfile [zebra, apple] fs) =
       fs(docfile \<mapsto> Docx
         \<lparr>footer = add_page_numbers empty_paragraph,
          body =
            [Heading (str ''#'') 0,
             Section ODD_PAGE, Heading (str ''Aa'') 0,
             Paragraph \<lparr>alignment = None, runs =
               [\<lparr>r_text = str ''apple'', r_bold = Some True, r_italic = None,
                 r_rgb = Some (22, 103, 255), r_xml = []\<rparr>,
                \<lparr>r_text = str '' [b3/p2] '', r_bold = None, r_italic = Some True,
                 r_rgb = None, r_xml = []\<rparr>,
                \<lparr>r_text = str ''desc2'', r_bold = None, r_italic = None,
                 r_rgb = None, r_xml = []\<rparr>]\<rparr>,
             Section ODD_PAGE, Heading (str ''Zz'') 0,
             Paragraph \<lparr>alignment = None, runs =
               [\<lparr>r_text = str ''Zebra'', r_bold = Some True, r_italic = None,
                 r_rgb = Some (22, 103, 255), r_xml = []\<rparr>,
                \<lparr>r_text = str '' [b1/p5] '', r_bold = None, r_italic = Some True,
                 r_rgb = None, r_xml = []\<rparr>,
                \<lparr>r_text = str ''desc1'', r_bold = None, r_italic = None,
                 r_rgb = None, r_xml = []\<rparr>]\<rparr>]\<rparr>)
   \<and> map block_text (body (document (snd (loop U [apple, zebra] initial)))) =
       [str ''#'', [], str ''Aa'', str ''apple [b3/p2] desc2'',
        [], str ''Zz'', str ''Zebra [b1/p5] desc1'']
   \<and> sections (body (document (snd (loop U [apple, zebra] initial)))) = 2"
  apply (intro conjI)
      apply (simp add: eval_sort apple_def zebra_def)
     apply (simp add: eval_main eval_sort apple_def zebra_def)
    apply (simp add: eval_main eval_sort apple_def zebra_def topic_run_def location_run_def add_run_def)
   apply (simp add: eval_main eval_sort apple_def zebra_def topic_run_def location_run_def add_run_def)
  apply (simp add: eval_main eval_sort apple_def zebra_def)
  done

theorem zebra_apple_witness:
  "empty_dir index_docx = None
   \<and> csvsorted plain_table [zebra, apple] = Inr [apple, zebra]
   \<and> result (main plain_table index_docx [zebra, apple] empty_dir) = Inr ()
   \<and> map block_text (body (document (snd (loop plain_table [apple, zebra] initial)))) =
       [str ''#'', [], str ''Aa'', str ''apple [b3/p2] desc2'',
        [], str ''Zz'', str ''Zebra [b1/p5] desc1'']
   \<and> sections (body (document (snd (loop plain_table [apple, zebra] initial)))) = 2"
proof -
  have f: "empty_dir index_docx = None" by (simp add: empty_dir_def)
  from zebra_apple [where fs = empty_dir and docfile = index_docx and U = plain_table, OF f] f
  show ?thesis by simp
qed

section \<open>The footer\<close>

lemmas eval_footer =
  add_page_numbers_def empty_paragraph_def classify_def xml_run_def add_run_def
  w_t_def fldChar_def instrText_def

lemma classify_footer:
  "map classify (runs (add_page_numbers p)) =
     map classify (runs p) @
       [Fixed_text (str ''Page ''), Computed_field (str ''PAGE''),
        Fixed_text (str '' of ''), Computed_field (str ''NUMPAGES'')]"
  by (simp add: eval_footer)

lemma footer_initial: "footer (document initial) = add_page_numbers empty_paragraph"
  by (simp add: initial_def add_heading_def Document_def)

text \<open>
  C7, as the code has it. \<open>add_page_numbers\<close> appends four runs to the footer paragraph:
  the text \<open>Page\<close>, a \<open>PAGE\<close> field, the text \<open>of\<close> and a \<open>NUMPAGES\<close> field, the two
  fields in the field mechanism of the document format, and nothing after the second
  field. That is the footer of every document the run saves.
\<close>

theorem footer_page_of_pages:
  "map classify (runs (add_page_numbers p)) =
     map classify (runs p) @
       [Fixed_text (str ''Page ''), Computed_field (str ''PAGE''),
        Fixed_text (str '' of ''), Computed_field (str ''NUMPAGES'')]
   \<and> (result (main U docfile rows fs) = Inr () \<longrightarrow>
        (\<exists>d. files (main U docfile rows fs) docfile = Some (Docx d)
           \<and> map classify (runs (footer d)) =
               [Fixed_text (str ''Page ''), Computed_field (str ''PAGE''),
                Fixed_text (str '' of ''), Computed_field (str ''NUMPAGES'')]))"
proof (intro conjI impI)
  show "map classify (runs (add_page_numbers p)) =
     map classify (runs p) @
       [Fixed_text (str ''Page ''), Computed_field (str ''PAGE''),
        Fixed_text (str '' of ''), Computed_field (str ''NUMPAGES'')]"
    by (rule classify_footer)
next
  assume ok: "result (main U docfile rows fs) = Inr ()"
  obtain srt where srt: "csvsorted U rows = Inr srt"
    using ok by (cases "csvsorted U rows") (simp_all add: main_def)
  have free: "fs docfile = None"
    using ok srt by (cases "fs docfile") (simp_all add: main_def)
  obtain e st where l: "loop U srt initial = (e, st)" by (cases "loop U srt initial")
  with ok srt free have e: "e = None" by (cases e) (simp_all add: main_def)
  from l footer_loop [of U srt initial] have "footer (document st) = add_page_numbers empty_paragraph"
    by (simp add: footer_initial)
  then have "map classify (runs (footer (document st))) =
               [Fixed_text (str ''Page ''), Computed_field (str ''PAGE''),
                Fixed_text (str '' of ''), Computed_field (str ''NUMPAGES'')]"
    using classify_footer [of empty_paragraph] by (simp add: empty_paragraph_def)
  moreover from srt free l e have "files (main U docfile rows fs) docfile = Some (Docx (document st))"
    by (simp add: main_def)
  ultimately show "\<exists>d. files (main U docfile rows fs) docfile = Some (Docx d)
           \<and> map classify (runs (footer d)) =
               [Fixed_text (str ''Page ''), Computed_field (str ''PAGE''),
                Fixed_text (str '' of ''), Computed_field (str ''NUMPAGES'')]"
    by (intro exI [of _ "document st"] conjI)
qed

theorem footer_page_of_pages_witness:
  "result (main plain_table index_docx [zebra, apple] empty_dir) = Inr ()
   \<and> (\<exists>d. files (main plain_table index_docx [zebra, apple] empty_dir) index_docx = Some (Docx d)
           \<and> map classify (runs (footer d)) =
               [Fixed_text (str ''Page ''), Computed_field (str ''PAGE''),
                Fixed_text (str '' of ''), Computed_field (str ''NUMPAGES'')])"
proof -
  have r: "result (main plain_table index_docx [zebra, apple] empty_dir) = Inr ()"
    by (simp add: eval_main eval_sort apple_def zebra_def empty_dir_def)
  with footer_page_of_pages [of empty_paragraph plain_table index_docx "[zebra, apple]" empty_dir]
  show ?thesis by blast
qed

text \<open>
  C7 as stated fails: the footer has four runs and ends with the \<open>NUMPAGES\<close> field; there
  is no trailing text.
\<close>

theorem footer_ends_with_field:
  "map classify (runs (add_page_numbers empty_paragraph)) =
     [Fixed_text (str ''Page ''), Computed_field (str ''PAGE''),
      Fixed_text (str '' of ''), Computed_field (str ''NUMPAGES'')]
   \<and> \<not> footer_with_trailing_text (map classify (runs (add_page_numbers empty_paragraph)))"
  by (simp add: eval_footer)

section \<open>Empty topics\<close>



section \<open>The letter cursor\<close>

lemma backtick: "str ''`'' = [96]"
  by (simp add: str_def)

lemma lead_hd: "r \<noteq> [] \<Longrightarrow> r ! 0 \<noteq> [] \<Longrightarrow> lead U r = lower1 U (hd (r ! 0))"
  by (cases r; cases "r ! 0") (simp_all add: lead_def)

lemma step_wf:
  assumes "4 \<le> length r" and "r ! 0 \<noteq> []"
  shows "fst (step U r st) = None"
    and "currltr (snd (step U r st)) = (if currltr st < lead U r then lead U r else currltr st)"
    and "body (document (snd (step U r st))) =
           body (document st) @
             (if currltr st < lead U r
              then [Section ODD_PAGE, Heading (upper1 U (hd (r ! 0)) @ lead U r) 0] else []) @
             [entry r]"
proof -
  from assms have l: "lead U r = lower1 U (hd (r ! 0))" by (intro lead_hd) auto
  show "fst (step U r st) = None" using assms by (simp add: step_ok)
  show "currltr (snd (step U r st)) = (if currltr st < lead U r then lead U r else currltr st)"
    using assms by (simp add: step_ok l currltr_new_letter)
  show "body (document (snd (step U r st))) =
           body (document st) @
             (if currltr st < lead U r
              then [Section ODD_PAGE, Heading (upper1 U (hd (r ! 0)) @ lead U r) 0] else []) @
             [entry r]"
    using assms by (simp add: step_ok l body_new_letter)
qed

lemma loop_append:
  "loop U (xs @ ys) st =
     (case loop U xs st of (Some e, st') \<Rightarrow> (Some e, st') | (None, st') \<Rightarrow> loop U ys st')"
  by (induction xs arbitrary: st) (auto split: prod.splits option.splits)

lemma state_before_0: "state_before U rs 0 = initial"
  by (simp add: state_before_def)

lemma state_before_Suc:
  assumes "\<forall>r\<in>set rs. 4 \<le> length r \<and> r ! 0 \<noteq> []" and "i < length rs"
  shows "state_before U rs (Suc i) = snd (step U (rs ! i) (state_before U rs i))"
proof -
  have wf: "\<forall>r\<in>set (take i rs). 4 \<le> length r \<and> r ! 0 \<noteq> []"
    using assms(1) by (auto dest: in_set_takeD)
  have "fst (loop U (take i rs) initial) = None" using wf by (rule loop_total)
  then obtain st where st: "loop U (take i rs) initial = (None, st)"
    by (cases "loop U (take i rs) initial") simp
  from assms(2) have "take (Suc i) rs = take i rs @ [rs ! i]" by (rule take_Suc_conv_app_nth)
  then have "loop U (take (Suc i) rs) initial = loop U [rs ! i] st"
    by (simp add: loop_append st)
  then show ?thesis
    by (simp add: state_before_def st split: prod.splits option.splits)
qed

lemma state_before_beyond: "length rs \<le> i \<Longrightarrow> state_before U rs i = state_before U rs (length rs)"
  by (simp add: state_before_def)

lemma cursor_Suc:
  assumes "\<forall>r\<in>set rs. 4 \<le> length r \<and> r ! 0 \<noteq> []" and "i < length rs"
  shows "currltr (state_before U rs (Suc i)) =
           (if opens U rs i then lead U (rs ! i) else currltr (state_before U rs i))"
  using assms by (simp add: state_before_Suc step_wf opens_def)

lemma body_Suc:
  assumes "\<forall>r\<in>set rs. 4 \<le> length r \<and> r ! 0 \<noteq> []" and "i < length rs"
  shows "body (document (state_before U rs (Suc i))) =
           body (document (state_before U rs i)) @
             (if opens U rs i
              then [Section ODD_PAGE, Heading (upper1 U (hd (rs ! i ! 0)) @ lead U (rs ! i)) 0]
              else []) @
             [entry (rs ! i)]"
  using assms by (simp add: state_before_Suc step_wf opens_def)

lemma cursor_step_mono:
  assumes "\<forall>r\<in>set rs. 4 \<le> length r \<and> r ! 0 \<noteq> []"
  shows "currltr (state_before U rs i) \<le> currltr (state_before U rs (Suc i))"
proof (cases "i < length rs")
  case True
  with assms show ?thesis by (auto simp add: cursor_Suc opens_def intro: less_imp_le)
next
  case False
  then show ?thesis by (simp add: state_before_def)
qed

lemma cursor_mono:
  assumes "\<forall>r\<in>set rs. 4 \<le> length r \<and> r ! 0 \<noteq> []" and "i \<le> j"
  shows "currltr (state_before U rs i) \<le> currltr (state_before U rs j)"
  using assms(2) cursor_step_mono [OF assms(1)]
  by (rule lift_Suc_mono_le [where f = "\<lambda>n. currltr (state_before U rs n)", rotated])

lemma openings_increase:
  assumes wf: "\<forall>r\<in>set rs. 4 \<le> length r \<and> r ! 0 \<noteq> []"
    and "i < j" and "j < length rs" and oi: "opens U rs i" and oj: "opens U rs j"
  shows "lead U (rs ! i) < lead U (rs ! j)"
proof -
  from assms have "currltr (state_before U rs (Suc i)) = lead U (rs ! i)"
    by (simp add: cursor_Suc)
  moreover from \<open>i < j\<close> have "currltr (state_before U rs (Suc i)) \<le> currltr (state_before U rs j)"
    by (intro cursor_mono [OF wf]) simp
  moreover from oj have "currltr (state_before U rs j) < lead U (rs ! j)" by (simp add: opens_def)
  ultimately show ?thesis by simp
qed

lemma casefold_Cons:
  "casefold U (c # cs) = (if c < 128 then [ascii_lower c] else fold_full U c) @ casefold U cs"
  by (simp add: casefold_def)

text \<open>Under the order of the keys, a topic before one with a low leading character has a low one too.\<close>

lemma low_lead_before:
  assumes ab: "above_backtick U"
    and t: "t \<noteq> []" and t': "t' \<noteq> []"
    and le: "casefold U t \<le> casefold U t'"
    and low: "lower1 U (hd t') \<le> str ''`''"
  shows "lower1 U (hd t) \<le> str ''`''"
proof -
  from t obtain c cs where tc: "t = c # cs" by (cases t) auto
  from t' obtain c' cs' where tc': "t' = c' # cs'" by (cases t') auto
  have c': "c' < 128"
  proof (rule ccontr)
    assume "\<not> c' < 128"
    then have "128 \<le> c'" by simp
    with ab have "str ''`'' < lower_full U c'" by (simp add: above_backtick_def)
    with low tc' \<open>\<not> c' < 128\<close> show False by (simp add: lower1_def)
  qed
  with low tc' have al': "ascii_lower c' \<le> 96" by (auto simp add: lower1_def backtick)
  have c: "c < 128"
  proof (rule ccontr)
    assume n: "\<not> c < 128"
    then have "128 \<le> c" by simp
    with ab obtain d ds where d: "fold_full U c = d # ds" "96 < d"
      by (auto simp add: above_backtick_def)
    with le tc tc' c' n have "d \<le> ascii_lower c'" by (auto simp add: casefold_Cons)
    with al' d(2) show False by simp
  qed
  with le tc tc' c' have "ascii_lower c \<le> ascii_lower c'" by (auto simp add: casefold_Cons)
  with al' c tc show ?thesis by (auto simp add: lower1_def backtick)
qed

lemma SortKey_le_topic: "SortKey U r \<le> SortKey U r' \<Longrightarrow> casefold U (r ! 0) \<le> casefold U (r' ! 0)"
  by (auto simp add: SortKey_def)

lemma loop_low:
  "\<forall>r\<in>set rs. 4 \<le> length r \<and> r ! 0 \<noteq> [] \<and> lead U r \<le> currltr st \<Longrightarrow>
   snd (loop U rs st) = st\<lparr>document := (document st)\<lparr>body := body (document st) @ map entry rs\<rparr>\<rparr>"
proof (induction rs arbitrary: st)
  case Nil
  show ?case by simp
next
  case (Cons r rs)
  then have r: "4 \<le> length r" "r ! 0 \<noteq> []" and low: "\<not> currltr st < lead U r" by auto
  let ?st = "snd (step U r st)"
  from r low have c: "currltr ?st = currltr st"
    and b: "body (document ?st) = body (document st) @ [entry r]"
    by (simp_all add: step_wf)
  from r have l: "lower1 U (hd (r ! 0)) = lead U r" by (intro lead_hd [symmetric]) auto
  from r low have s: "?st = st\<lparr>document := (document st)\<lparr>body := body (document st) @ [entry r]\<rparr>\<rparr>"
    by (simp add: step_ok new_letter_def l)
  from r have "snd (loop U (r # rs) st) = snd (loop U rs ?st)" by (simp add: step_ok)
  also have "\<dots> = ?st\<lparr>document := (document ?st)\<lparr>body := body (document ?st) @ map entry rs\<rparr>\<rparr>"
    by (rule Cons.IH) (use Cons.prems c in auto)
  also have "\<dots> = st\<lparr>document := (document st)\<lparr>body := body (document st) @ map entry (r # rs)\<rparr>\<rparr>"
    by (simp add: s)
  finally show ?case .
qed

lemma low_rows_under_hash:
  assumes wf: "\<forall>r\<in>set rs. 4 \<le> length r \<and> r ! 0 \<noteq> []"
    and srt: "sorted (map (SortKey U) rs)"
    and ab: "above_backtick U"
    and j: "j < length rs" and low: "lead U (rs ! j) \<le> str ''`''"
  shows "\<not> opens U rs j"
    and "body (document (state_before U rs (Suc j))) = Heading (str ''#'') 0 # map entry (take (Suc j) rs)"
proof -
  have lows: "lead U (rs ! i) \<le> str ''`''" if "i \<le> j" for i
  proof -
    from that j have i: "i < length rs" by simp
    from i j have "rs ! i \<in> set rs" and "rs ! j \<in> set rs" by simp_all
    with wf have "4 \<le> length (rs ! i) \<and> rs ! i ! 0 \<noteq> []" and "4 \<le> length (rs ! j) \<and> rs ! j ! 0 \<noteq> []"
      by blast+
    then have ri: "rs ! i \<noteq> []" "rs ! i ! 0 \<noteq> []" and rj: "rs ! j \<noteq> []" "rs ! j ! 0 \<noteq> []"
      by auto
    from srt that j have "SortKey U (rs ! i) \<le> SortKey U (rs ! j)"
      using sorted_nth_mono [of "map (SortKey U) rs" i j] by simp
    then have "casefold U (rs ! i ! 0) \<le> casefold U (rs ! j ! 0)" by (rule SortKey_le_topic)
    moreover from low rj have "lower1 U (hd (rs ! j ! 0)) \<le> str ''`''" by (simp add: lead_hd)
    ultimately have "lower1 U (hd (rs ! i ! 0)) \<le> str ''`''"
      using ab ri rj by (intro low_lead_before [of U "rs ! i ! 0" "rs ! j ! 0"]) auto
    with ri show ?thesis by (simp add: lead_hd)
  qed
  have pre: "\<forall>r\<in>set (take n rs). 4 \<le> length r \<and> r ! 0 \<noteq> [] \<and> lead U r \<le> currltr initial"
    if "n \<le> Suc j" for n
  proof
    fix r assume "r \<in> set (take n rs)"
    then obtain i where i: "i < n" "i < length rs" "r = rs ! i"
      by (auto simp add: in_set_conv_nth)
    with that have "i \<le> j" by simp
    then have "lead U r \<le> str ''`''" using lows i by simp
    moreover from i have "r \<in> set rs" by simp
    with wf have "4 \<le> length r \<and> r ! 0 \<noteq> []" by blast
    ultimately show "4 \<le> length r \<and> r ! 0 \<noteq> [] \<and> lead U r \<le> currltr initial"
      by (simp add: initial_def)
  qed
  have st: "state_before U rs n =
              initial\<lparr>document := (document initial)\<lparr>body := body (document initial) @ map entry (take n rs)\<rparr>\<rparr>"
    if "n \<le> Suc j" for n
    unfolding state_before_def by (rule loop_low) (rule pre [OF that])
  have "currltr (state_before U rs j) = str ''`''"
    by (simp add: st initial_def)
  with low show "\<not> opens U rs j" by (simp add: opens_def)
  show "body (document (state_before U rs (Suc j))) = Heading (str ''#'') 0 # map entry (take (Suc j) rs)"
    by (subst st) (simp_all add: initial_def add_heading_def Document_def)
qed

lemma above_backtick_plain: "above_backtick plain_table"
  by (auto simp add: above_backtick_def plain_table_def backtick)

lemmas eval_loop =
  state_before_def opens_def lead_def initial_def step_def new_letter_def lower1_def upper1_def
  ascii_lower_def ascii_upper_def add_heading_def add_section_def add_paragraph_def Document_def
  Let_def str_def

text \<open>
  C10. For rows of at least four fields with non-empty topics, run through the loop from
  its initial state: the cursor starts at the backtick and never decreases; an iteration
  adds a section and a heading exactly when the lower-cased leading character of its row
  is greater than the cursor, and the cursor then moves to that character; the characters
  at which sections are opened increase strictly. When the rows are in the order of the
  sort, and the Unicode tables send no non-ASCII character at or below the backtick, a row
  whose lower-cased leading character is at most the backtick opens no section, and after
  it the body is still the heading \<open>#\<close> followed by the entries alone.
\<close>

theorem cursor_discipline:
  assumes wf: "\<forall>r\<in>set rs. 4 \<le> length r \<and> r ! 0 \<noteq> []"
  shows "currltr (state_before U rs 0) = str ''`''
    \<and> (\<forall>i j. i \<le> j \<longrightarrow> currltr (state_before U rs i) \<le> currltr (state_before U rs j))
    \<and> (\<forall>i. i < length rs \<longrightarrow>
          currltr (state_before U rs (Suc i)) =
            (if opens U rs i then lead U (rs ! i) else currltr (state_before U rs i))
          \<and> body (document (state_before U rs (Suc i))) =
              body (document (state_before U rs i)) @
                (if opens U rs i
                 then [Section ODD_PAGE, Heading (upper1 U (hd (rs ! i ! 0)) @ lead U (rs ! i)) 0]
                 else []) @
                [entry (rs ! i)])
    \<and> (\<forall>i j. i < j \<and> j < length rs \<and> opens U rs i \<and> opens U rs j \<longrightarrow>
          lead U (rs ! i) < lead U (rs ! j))
    \<and> (above_backtick U \<and> sorted (map (SortKey U) rs) \<longrightarrow>
         (\<forall>j. j < length rs \<and> lead U (rs ! j) \<le> str ''`'' \<longrightarrow>
            \<not> opens U rs j
            \<and> body (document (state_before U rs (Suc j))) =
                Heading (str ''#'') 0 # map entry (take (Suc j) rs)))"
proof (intro conjI allI impI)
  show "currltr (state_before U rs 0) = str ''`''"
    by (simp add: state_before_0 initial_def)
next
  fix i j :: nat assume "i \<le> j"
  with wf show "currltr (state_before U rs i) \<le> currltr (state_before U rs j)"
    by (rule cursor_mono)
next
  fix i assume "i < length rs"
  with wf show "currltr (state_before U rs (Suc i)) =
            (if opens U rs i then lead U (rs ! i) else currltr (state_before U rs i))"
    by (rule cursor_Suc)
next
  fix i assume "i < length rs"
  with wf show "body (document (state_before U rs (Suc i))) =
              body (document (state_before U rs i)) @
                (if opens U rs i
                 then [Section ODD_PAGE, Heading (upper1 U (hd (rs ! i ! 0)) @ lead U (rs ! i)) 0]
                 else []) @
                [entry (rs ! i)]"
    by (rule body_Suc)
next
  fix i j assume "i < j \<and> j < length rs \<and> opens U rs i \<and> opens U rs j"
  with wf show "lead U (rs ! i) < lead U (rs ! j)"
    by (intro openings_increase [of rs i j U]) simp_all
next
  fix j
  assume a: "above_backtick U \<and> sorted (map (SortKey U) rs)"
    and b: "j < length rs \<and> lead U (rs ! j) \<le> str ''`''"
  with wf show "\<not> opens U rs j"
    by (intro low_rows_under_hash(1) [of rs U j]) simp_all
  from wf a b show "body (document (state_before U rs (Suc j))) =
                Heading (str ''#'') 0 # map entry (take (Suc j) rs)"
    by (intro low_rows_under_hash(2) [of rs U j]) simp_all
qed

theorem cursor_discipline_witness:
  "4 \<le> length digit1 \<and> 4 \<le> length apple \<and> 4 \<le> length zebra
   \<and> digit1 ! 0 = str ''1st'' \<and> apple ! 0 = str ''apple'' \<and> zebra ! 0 = str ''Zebra''
   \<and> above_backtick plain_table
   \<and> sorted (map (SortKey plain_table) [digit1, apple, zebra])
   \<and> lead plain_table ([digit1, apple, zebra] ! 0) \<le> str ''`''
   \<and> \<not> opens plain_table [digit1, apple, zebra] 0
   \<and> body (document (state_before plain_table [digit1, apple, zebra] (Suc 0))) =
       Heading (str ''#'') 0 # map entry (take (Suc 0) [digit1, apple, zebra])
   \<and> opens plain_table [digit1, apple, zebra] 1
   \<and> opens plain_table [digit1, apple, zebra] 2
   \<and> lead plain_table ([digit1, apple, zebra] ! 1) < lead plain_table ([digit1, apple, zebra] ! 2)
   \<and> currltr (state_before plain_table [digit1, apple, zebra] 0)
       \<le> currltr (state_before plain_table [digit1, apple, zebra] 3)"
proof -
  let ?rs = "[digit1, apple, zebra]"
  have len: "4 \<le> length digit1 \<and> 4 \<le> length apple \<and> 4 \<le> length zebra"
    by (simp add: digit1_def apple_def zebra_def)
  have top: "digit1 ! 0 = str ''1st'' \<and> apple ! 0 = str ''apple'' \<and> zebra ! 0 = str ''Zebra''"
    by (simp add: digit1_def apple_def zebra_def)
  from len top have wf: "\<forall>r\<in>set ?rs. 4 \<le> length r \<and> r ! 0 \<noteq> []"
    by (simp add: str_def)
  have srt: "sorted (map (SortKey plain_table) ?rs)"
    by (simp add: SortKey_def casefold_def ascii_lower_def str_def digit1_def apple_def zebra_def)
  have l0: "lead plain_table (?rs ! 0) \<le> str ''`''"
    by (simp add: eval_loop digit1_def)
  have o1: "opens plain_table ?rs 1"
    by (simp add: eval_loop digit1_def apple_def zebra_def)
  have o2: "opens plain_table ?rs 2"
    by (simp add: eval_loop digit1_def apple_def zebra_def)
  note T = cursor_discipline [OF wf, of plain_table]
  note mono = T [THEN conjunct2, THEN conjunct1, rule_format]
  note incr = T [THEN conjunct2, THEN conjunct2, THEN conjunct2, THEN conjunct1, rule_format]
  note hash = T [THEN conjunct2, THEN conjunct2, THEN conjunct2, THEN conjunct2, rule_format]
  have h: "\<not> opens plain_table ?rs 0
        \<and> body (document (state_before plain_table ?rs (Suc 0))) =
            Heading (str ''#'') 0 # map entry (take (Suc 0) ?rs)"
    by (rule hash [of 0]) (use above_backtick_plain srt l0 in simp_all)
  have i: "lead plain_table (?rs ! 1) < lead plain_table (?rs ! 2)"
    by (rule incr [of 1 2]) (use o1 o2 in simp)
  have m: "currltr (state_before plain_table ?rs 0) \<le> currltr (state_before plain_table ?rs 3)"
    by (rule mono [of 0 3]) simp
  from len top above_backtick_plain srt l0 h o1 o2 i m show ?thesis by blast
qed


section \<open>Sections and letters\<close>















section \<open>The examples under any table\<close>

text \<open>
  The rows of the examples are ASCII, so what they show holds whatever the Unicode tables
  are.
\<close>

lemma five_fields_any_table:
  "result (main U index_docx [five_fields] empty_dir) = Inr ()
   \<and> files (main U index_docx [five_fields] empty_dir) index_docx
       = files (main U index_docx [apple] empty_dir) index_docx"
  by (simp add: eval_main eval_sort five_fields_def apple_def empty_dir_def index_docx_def)

lemma one_field_any_table:
  "result (main U index_docx [one_field] occupied) = Inl IndexError"
  by (simp add: main_def eval_sort occupied_def one_field_def)

lemma digits_any_table:
  "csvsorted U [digit2, digit1] = Inr [digit1, digit2]
   \<and> body (document (snd (loop U [digit1, digit2] initial))) =
       [Heading (str ''#'') 0, entry digit1, entry digit2]"
  by (simp add: eval_sort eval_loop digit1_def digit2_def entry_def)

end
